theory Spec2Isabelle
  imports Complex_Main "HOL-Library.Word" "HOL-Library.Signed_Division"
begin

section \<open>Dynamic stochastic synthesis (gendy.c): the embedding\<close>

text \<open>
  The opcodes \<open>gendy\<close> and \<open>gendyx\<close> of Csound. \<open>MYFLT\<close> is modelled by \<open>real\<close>
  (exact arithmetic, no rounding, no NaN and no infinities; the two output statements
  are given a second time with IEEE rounding below), \<open>int32\<close> values that take
  part in bit operations by \<open>32 word\<close>, and the C \<open>int\<close>s used as counters and indices
  (\<open>knum\<close>, \<open>initcps\<close>, \<open>index\<close>, \<open>which\<close>) by \<open>int\<close>: an instance that stays
  inside its buffers keeps them far below the range of 32 bits.
\<close>

subsection \<open>Constants and C library functions\<close>

definition BIPOLAR :: "32 word" where
  "BIPOLAR = 0x7FFFFFFF"

definition dv2_31 :: real where
  "dv2_31 = 4656612873077392578125 / 10 ^ 31"

definition GENDYMAXCPS :: real where
  "GENDYMAXCPS = 8192"

text \<open>
  The macros \<open>FMOD\<close>, \<open>POWER\<close>, \<open>ATAN\<close>, \<open>TAN\<close>, \<open>LOG\<close> and \<open>SIN\<close> of Csound's
  headers stand for the C library functions of those names; the last four are modelled by
  \<open>arctan\<close>, \<open>tan\<close>, \<open>ln\<close> and \<open>sin\<close> on the reals.

  Conversion of a floating value to \<open>int\<close> in C drops the fractional part (a value
  beyond the range of \<open>int\<close> has no defined conversion in C; the model keeps the
  integer).
\<close>

definition c_trunc :: "real \<Rightarrow> int" where
  "c_trunc x = (if 0 \<le> x then \<lfloor>x\<rfloor> else \<lceil>x\<rceil>)"

text \<open>
  \<open>FMOD\<close> is C's \<open>fmod\<close>: \<open>x - n * y\<close> with \<open>n\<close> the quotient \<open>x / y\<close> cut towards
  zero, so the result has the sign of \<open>x\<close>. The source calls it with the divisors
  \<open>2.0\<close> and \<open>4.0\<close> only.
\<close>

definition FMOD :: "real \<Rightarrow> real \<Rightarrow> real" where
  "FMOD x y = x - real_of_int (c_trunc (x / y)) * y"

text \<open>
  \<open>POWER\<close> is C's \<open>pow\<close>. \<open>None\<close> stands for a result that is no finite real: NaN
  for a negative base with a fractional exponent, infinity for base zero with a negative
  exponent.
\<close>

definition POWER :: "real \<Rightarrow> real \<Rightarrow> real option" where
  "POWER x y =
     (if y = 0 then Some 1
      else if 0 < x then Some (x powr y)
      else if x = 0 then (if 0 < y then Some 0 else None)
      else if y = real_of_int \<lfloor>y\<rfloor>
           then Some (if even \<lfloor>y\<rfloor> then \<bar>x\<bar> powr y else - (\<bar>x\<bar> powr y))
           else None)"

subsection \<open>The distribution sampler\<close>

text \<open>
  The two conversions of a raw draw: \<open>(MYFLT)((int32)((unsigned)rnd<<1)-BIPOLAR) * dv2_31\<close>
  (the subtraction wraps at 32 bits) and \<open>(MYFLT)rnd * dv2_31\<close>.
\<close>

definition bipolar_of :: "32 word \<Rightarrow> real" where
  "bipolar_of rnd = real_of_int (sint (push_bit 1 rnd - BIPOLAR)) * dv2_31"

definition unipolar_of :: "32 word \<Rightarrow> real" where
  "unipolar_of rnd = real_of_int (sint rnd) * dv2_31"

definition gendy_distribution :: "int \<Rightarrow> real \<Rightarrow> 32 word \<Rightarrow> real" where
  "gendy_distribution which a0 rnd =
     (let a = (if a0 > 1 then 1 else if a0 < 0.0001 then 0.0001 else a0) in
      if which = 0 then bipolar_of rnd
      else if which = 1 then
        (let c = arctan (10 * a);
             r = bipolar_of rnd
         in (1 / a) * tan (c * r) * 0.1)
      else if which = 2 then
        (let c = 0.5 + (0.499 * a);
             c = ln ((1 - c) / c);
             r = ((unipolar_of rnd - 0.5) * 0.998 * a) + 0.5
         in ln ((1 - r) / r) / c)
      else if which = 3 then
        (let c = tan (1.5692255 * a);
             r = tan (1.5692255 * a * unipolar_of rnd) / c
         in (ln (r * 0.999 + 0.001) * (- 0.1447648)) * 2 - 1)
      else if which = 4 then
        (let c = sin (1.5707963 * a)
         in sin (pi * (unipolar_of rnd - 0.5) * a) / c)
      else if which = 5 then
        (let c = ln (1 - (0.999 * a));
             r = unipolar_of rnd * 0.999 * a
         in (ln (1 - r) / c) * 2 - 1)
      else if which = 6 then a
      else bipolar_of rnd)"

subsection \<open>Mirroring\<close>

text \<open>Lines 149-157 (and 227-235): the amplitude candidate folded at the mirrors.\<close>

definition mirror_amp :: "real \<Rightarrow> real" where
  "mirror_amp v =
     (if v < - 1 \<or> v > 1 then
        (let v1 = (if v < 0 then v + 4 else v);
             v2 = FMOD v1 4
         in if v2 > 1 then (if v2 < 3 then 2 - v2 else v2 - 4) else v2)
      else v)"

text \<open>Lines 163-166 (and 240-243): the duration candidate folded at the mirrors.\<close>

definition mirror_dur :: "real \<Rightarrow> real" where
  "mirror_dur d =
     (if d > 1 then 2 - FMOD d 2
      else if d < 0 then 2 - FMOD (d + 2) 2
      else d)"

subsection \<open>Instance data\<close>

text \<open>
  The opcode arguments are pointers to cells owned by the caller; a cell may be passed
  for more than one argument. They are modelled by addresses into a store of cells. The
  \<open>GENDYX\<close> structure has the arguments of \<open>GENDY\<close> and two more; the fields after the
  arguments are the same in both.
\<close>

type_synonym addr = nat
type_synonym cells = "addr \<Rightarrow> real"

record GENDY_args =
  kamp :: addr
  ampdist :: addr
  durdist :: addr
  adpar :: addr
  ddpar :: addr
  minfreq :: addr
  maxfreq :: addr
  ampscl :: addr
  durscl :: addr
  initcps :: addr
  knum :: addr

record GENDYX_args = GENDY_args +
  kcurveup :: addr
  kcurvedown :: addr

record GENDY_state =
  phase :: real
  amp :: real
  nextamp :: real
  dur :: real
  speed :: real
  index :: int
  rand :: "32 word"
  memamp :: "real list"
  memdur :: "real list"

text \<open>What the opcodes read of the host: block size, \<open>1 / sr\<close> and the host's seed.\<close>

record CSOUND =
  ksmps :: nat
  onedsr :: real
  randSeed1 :: "32 word"

text \<open>
  \<open>csoundRand31\<close> belongs to the host and is not defined in gendy.c: it is a parameter
  \<open>R\<close> of every function that draws, the map from the register's old value to its new
  one (the call stores the new value in the register and returns it).
\<close>

type_synonym rand31 = "32 word \<Rightarrow> 32 word"

text \<open>Reading or writing outside a buffer and a remainder by zero are undefined in C.\<close>

datatype fault = DivByZero | OutOfBounds

subsection \<open>Initialisation\<close>

text \<open>
  Modelled from the spec: \<open>AuxAlloc\<close>, the host's allocator, which is not defined in
  gendy.c. It yields a fixed-length sequence of the size asked for (zeroed); a failed
  allocation ends the creation of the instance and is not part of the model.
\<close>

definition AuxAlloc :: "nat \<Rightarrow> real list" where
  "AuxAlloc n = replicate n 0"

text \<open>The loop of lines 117-122 (and 196-201).\<close>

function init_fill :: "rand31 \<Rightarrow> nat \<Rightarrow> nat \<Rightarrow> GENDY_state \<Rightarrow> GENDY_state" where
  "init_fill R i n p =
     (if i < n then
        (let r1 = R (rand p);
             ma = (memamp p)[i := bipolar_of r1];
             r2 = R r1;
             md = (memdur p)[i := unipolar_of r2]
         in init_fill R (Suc i) n (p\<lparr>rand := r2, memamp := ma, memdur := md\<rparr>))
      else p)"
  by pat_completeness auto
termination
  by (relation "measure (\<lambda>(R, i, n, p). n - i)") auto

declare init_fill.simps [simp del]

text \<open>
  \<open>gendy_init\<close>, lines 98-124. The function returns the host (its seed register advanced), the cells (the
  \<open>initcps\<close> cell possibly rewritten) and the instance.
\<close>

definition gendy_init ::
  "rand31 \<Rightarrow> CSOUND \<Rightarrow> cells \<Rightarrow> 'a GENDY_args_scheme \<Rightarrow> GENDY_state
     \<Rightarrow> CSOUND \<times> cells \<times> GENDY_state" where
  "gendy_init R cs c a p =
     (let p = p\<lparr>amp := 0, nextamp := 0, phase := 1, speed := 100, index := 0\<rparr>;
          c = (if c (initcps a) < 1 then c(initcps a := 12)
               else if c (initcps a) > GENDYMAXCPS then c(initcps a := GENDYMAXCPS)
               else c);
          n = c_trunc (c (initcps a));
          p = p\<lparr>memamp := AuxAlloc (nat n), memdur := AuxAlloc (nat n)\<rparr>;
          s = R (randSeed1 cs);
          cs = cs\<lparr>randSeed1 := s\<rparr>;
          p = p\<lparr>rand := s\<rparr>
      in (cs, c, init_fill R 0 (nat n) p))"

text \<open>\<open>gendyx_init\<close>, lines 177-203, is the same statements on the \<open>GENDYX\<close> structure.\<close>

definition gendyx_init ::
  "rand31 \<Rightarrow> CSOUND \<Rightarrow> cells \<Rightarrow> GENDYX_args \<Rightarrow> GENDY_state
     \<Rightarrow> CSOUND \<times> cells \<times> GENDY_state" where
  "gendyx_init R cs c a p = gendy_init R cs c a p"

subsection \<open>The breakpoint advance\<close>

text \<open>
  The body of the conditional, lines 139-169 (and 218-246, the same statements).
  \<open>icps\<close>, \<open>minf\<close> and \<open>maxf\<close> are the locals \<open>initcps\<close>, \<open>minfreq\<close> and \<open>maxfreq\<close>
  read at the start of the block; \<open>kn\<close> is the local \<open>knum\<close>, which the advance may
  overwrite for the rest of the block.
\<close>

definition gendy_breakpoint ::
  "rand31 \<Rightarrow> CSOUND \<Rightarrow> cells \<Rightarrow> 'a GENDY_args_scheme \<Rightarrow> int \<Rightarrow> real \<Rightarrow> real
     \<Rightarrow> int \<Rightarrow> GENDY_state \<Rightarrow> fault + (int \<times> GENDY_state)" where
  "gendy_breakpoint R cs c a icps minf maxf kn p =
     (let ph = phase p - 1;
          kn = (if kn > icps \<or> kn < 1 then icps else kn)
      in if kn = 0 then Inl DivByZero
         else
           (let idx = (index p + 1) smod kn
            in if idx < 0 \<or> int (length (memamp p)) \<le> idx \<or> int (length (memdur p)) \<le> idx
               then Inl OutOfBounds
               else
                 (let i = nat idx;
                      r1 = R (rand p);
                      dist = gendy_distribution (c_trunc (c (ampdist a))) (c (adpar a)) r1;
                      na = mirror_amp (memamp p ! i + c (ampscl a) * dist);
                      r2 = R r1;
                      dist2 = gendy_distribution (c_trunc (c (durdist a))) (c (ddpar a)) r2;
                      d = mirror_dur (memdur p ! i + c (durscl a) * dist2);
                      sp = (minf + (maxf - minf) * d) * onedsr cs * real_of_int kn
                  in Inr (kn, p\<lparr>phase := ph, index := idx, amp := nextamp p, rand := r2,
                                nextamp := na, memamp := (memamp p)[i := na],
                                dur := d, memdur := (memdur p)[i := d], speed := sp\<rparr>))))"

text \<open>The conditional itself, lines 138-170 (and 217-247).\<close>

definition gendy_pending ::
  "rand31 \<Rightarrow> CSOUND \<Rightarrow> cells \<Rightarrow> 'a GENDY_args_scheme \<Rightarrow> int \<Rightarrow> real \<Rightarrow> real
     \<Rightarrow> int \<Rightarrow> GENDY_state \<Rightarrow> fault + (int \<times> GENDY_state)" where
  "gendy_pending R cs c a icps minf maxf kn p =
     (if phase p \<ge> 1 then gendy_breakpoint R cs c a icps minf maxf kn p
      else Inr (kn, p))"

subsection \<open>The linear variant\<close>

text \<open>One turn of the loop of lines 137-173: the local \<open>knum\<close>, the instance and \<open>out[n]\<close>.\<close>

definition gendy_sample ::
  "rand31 \<Rightarrow> CSOUND \<Rightarrow> cells \<Rightarrow> 'a GENDY_args_scheme \<Rightarrow> int \<Rightarrow> real \<Rightarrow> real
     \<Rightarrow> int \<Rightarrow> GENDY_state \<Rightarrow> fault + (int \<times> GENDY_state \<times> real)" where
  "gendy_sample R cs c a icps minf maxf kn p =
     (case gendy_pending R cs c a icps minf maxf kn p of
        Inl e \<Rightarrow> Inl e
      | Inr (kn', p') \<Rightarrow>
          Inr (kn', p'\<lparr>phase := phase p' + speed p'\<rparr>,
               c (kamp a) * ((1 - phase p') * amp p' + phase p' * nextamp p')))"

text \<open>The loop, by the number of samples still to write; the result lists \<open>out\<close>.\<close>

fun gendy_loop ::
  "rand31 \<Rightarrow> CSOUND \<Rightarrow> cells \<Rightarrow> 'a GENDY_args_scheme \<Rightarrow> int \<Rightarrow> real \<Rightarrow> real
     \<Rightarrow> nat \<Rightarrow> int \<Rightarrow> GENDY_state \<Rightarrow> fault + (GENDY_state \<times> real list)" where
  "gendy_loop R cs c a icps minf maxf 0 kn p = Inr (p, [])"
| "gendy_loop R cs c a icps minf maxf (Suc n) kn p =
     (case gendy_sample R cs c a icps minf maxf kn p of
        Inl e \<Rightarrow> Inl e
      | Inr (kn', p', y) \<Rightarrow>
          (case gendy_loop R cs c a icps minf maxf n kn' p' of
             Inl e \<Rightarrow> Inl e
           | Inr (p'', ys) \<Rightarrow> Inr (p'', y # ys)))"

text \<open>\<open>gendy_process_arate\<close>, lines 126-175.\<close>

definition gendy_process_arate ::
  "rand31 \<Rightarrow> CSOUND \<Rightarrow> cells \<Rightarrow> 'a GENDY_args_scheme \<Rightarrow> GENDY_state
     \<Rightarrow> fault + (GENDY_state \<times> real list)" where
  "gendy_process_arate R cs c a p =
     gendy_loop R cs c a (c_trunc (c (initcps a))) (c (minfreq a)) (c (maxfreq a))
       (ksmps cs) (c_trunc (c (knum a))) p"

subsection \<open>The curved variant\<close>

text \<open>
  One turn of the loop of lines 216-255. The two curve cells are rewritten when negative,
  so the cells are part of the result. A sample is \<open>None\<close> when \<open>POWER\<close> has no finite
  value.
\<close>

definition gendyx_sample ::
  "rand31 \<Rightarrow> CSOUND \<Rightarrow> cells \<Rightarrow> GENDYX_args \<Rightarrow> int \<Rightarrow> real \<Rightarrow> real
     \<Rightarrow> int \<Rightarrow> GENDY_state \<Rightarrow> fault + (int \<times> cells \<times> GENDY_state \<times> real option)" where
  "gendyx_sample R cs c a icps minf maxf kn p =
     (case gendy_pending R cs c a icps minf maxf kn p of
        Inl e \<Rightarrow> Inl e
      | Inr (kn', p') \<Rightarrow>
          (let c = (if c (kcurveup a) < 0 then c(kcurveup a := 0) else c);
               c = (if c (kcurvedown a) < 0 then c(kcurvedown a := 0) else c);
               curve = (if nextamp p' - amp p' > 0 then c (kcurveup a) else c (kcurvedown a));
               y = map_option (\<lambda>w. c (kamp a) * (amp p' + w * (nextamp p' - amp p')))
                     (POWER (phase p') curve)
           in Inr (kn', c, p'\<lparr>phase := phase p' + speed p'\<rparr>, y)))"

fun gendyx_loop ::
  "rand31 \<Rightarrow> CSOUND \<Rightarrow> GENDYX_args \<Rightarrow> int \<Rightarrow> real \<Rightarrow> real
     \<Rightarrow> nat \<Rightarrow> int \<Rightarrow> cells \<Rightarrow> GENDY_state
     \<Rightarrow> fault + (cells \<times> GENDY_state \<times> real option list)" where
  "gendyx_loop R cs a icps minf maxf 0 kn c p = Inr (c, p, [])"
| "gendyx_loop R cs a icps minf maxf (Suc n) kn c p =
     (case gendyx_sample R cs c a icps minf maxf kn p of
        Inl e \<Rightarrow> Inl e
      | Inr (kn', c', p', y) \<Rightarrow>
          (case gendyx_loop R cs a icps minf maxf n kn' c' p' of
             Inl e \<Rightarrow> Inl e
           | Inr (c'', p'', ys) \<Rightarrow> Inr (c'', p'', y # ys)))"

text \<open>\<open>gendyx_process_arate\<close>, lines 205-257.\<close>

definition gendyx_process_arate ::
  "rand31 \<Rightarrow> CSOUND \<Rightarrow> cells \<Rightarrow> GENDYX_args \<Rightarrow> GENDY_state
     \<Rightarrow> fault + (cells \<times> GENDY_state \<times> real option list)" where
  "gendyx_process_arate R cs c a p =
     gendyx_loop R cs a (c_trunc (c (initcps a))) (c (minfreq a)) (c (maxfreq a))
       (ksmps cs) (c_trunc (c (knum a))) c p"

subsection \<open>The output statements in floating point\<close>

text \<open>
  \<open>MYFLT\<close> is one of the two IEEE formats, binary64 or binary32, as the build chooses.
  \<open>fl_round p emin n\<close> rounds a real to the nearest number with \<open>p\<close> significant
  bits, ties to the even significand, the exponent taken from the \<open>n\<close> values from
  \<open>emin\<close> up (below \<open>2 ^ emin\<close> the spacing is that of the subnormal numbers; values
  beyond the largest finite number are not modelled).
\<close>

primrec find_exp :: "int \<Rightarrow> nat \<Rightarrow> real \<Rightarrow> int" where
  "find_exp emin 0 x = emin"
| "find_exp emin (Suc n) x =
     (if 2 powi (emin + int n) \<le> x then emin + int n else find_exp emin n x)"

definition round_even :: "real \<Rightarrow> int" where
  "round_even y =
     (let f = \<lfloor>y\<rfloor>; d = y - real_of_int f
      in if d < 1 / 2 then f else if 1 / 2 < d then f + 1
         else if even f then f else f + 1)"

definition fl_round :: "nat \<Rightarrow> int \<Rightarrow> nat \<Rightarrow> real \<Rightarrow> real" where
  "fl_round p emin n x =
     (let u = 2 powi (find_exp emin n \<bar>x\<bar> - int p + 1)
      in real_of_int (round_even (x / u)) * u)"

definition fl64 :: "real \<Rightarrow> real" where
  "fl64 = fl_round 53 (- 1022) 2046"

definition fl32 :: "real \<Rightarrow> real" where
  "fl32 = fl_round 24 (- 126) 254"

text \<open>
  Line 171, \<open>*p->kamp * ((FL(1.0) - p->phase) * p->amp + p->phase * p->nextamp)\<close>, and
  line 253, \<open>*p->kamp * (p->amp + POWER(p->phase, curve) * (p->nextamp - p->amp))\<close>,
  with every operation rounded by \<open>fl\<close> (\<open>pow\<close> taken as correctly rounded; at
  exponent 1 it returns its first argument). With the identity for \<open>fl\<close> they are the
  expressions of \<open>gendy_sample\<close> and \<open>gendyx_sample\<close>.
\<close>

definition out171 :: "(real \<Rightarrow> real) \<Rightarrow> real \<Rightarrow> real \<Rightarrow> real \<Rightarrow> real \<Rightarrow> real" where
  "out171 fl k ph a n = fl (k * fl (fl (fl (1 - ph) * a) + fl (ph * n)))"

definition out253 ::
  "(real \<Rightarrow> real) \<Rightarrow> real \<Rightarrow> real \<Rightarrow> real \<Rightarrow> real \<Rightarrow> real \<Rightarrow> real option" where
  "out253 fl k ph a n curve =
     map_option (\<lambda>w. fl (k * fl (a + fl (fl w * fl (n - a))))) (POWER ph curve)"

subsection \<open>The specification's clamp\<close>

text \<open>The clamp of the shape parameter as the specification words it: into \<open>[0.0001, 1.0]\<close>.\<close>

definition clamp_shape :: "real \<Rightarrow> real" where
  "clamp_shape p = max 0.0001 (min 1 p)"

subsection \<open>Invariant of a live instance\<close>

text \<open>
  What keeps the breakpoint advance inside its buffers: the capacity read back from the
  \<open>initcps\<close> cell is at least 1 and not above the size of either buffer, and the index
  is not negative.
\<close>

definition inst_ok :: "int \<Rightarrow> GENDY_state \<Rightarrow> bool" where
  "inst_ok icps p \<longleftrightarrow>
     1 \<le> icps \<and> 0 \<le> index p
     \<and> icps \<le> int (length (memamp p)) \<and> icps \<le> int (length (memdur p))"

subsection \<open>Blocks in sequence\<close>

text \<open>
  Modelled from the spec: the host's block scheduling, which is not defined in gendy.c.
  The engine is invoked once per block and reads the control inputs at the start of each
  block; a run is given by the cells the host presents at the start of each block.
\<close>

fun gendy_run ::
  "rand31 \<Rightarrow> CSOUND \<Rightarrow> 'a GENDY_args_scheme \<Rightarrow> cells list \<Rightarrow> GENDY_state
     \<Rightarrow> fault + (GENDY_state \<times> real list list)" where
  "gendy_run R cs a [] p = Inr (p, [])"
| "gendy_run R cs a (c # bs) p =
     (case gendy_process_arate R cs c a p of
        Inl e \<Rightarrow> Inl e
      | Inr (p', ys) \<Rightarrow>
          (case gendy_run R cs a bs p' of
             Inl e \<Rightarrow> Inl e
           | Inr (p'', yss) \<Rightarrow> Inr (p'', ys # yss)))"

fun gendyx_run ::
  "rand31 \<Rightarrow> CSOUND \<Rightarrow> GENDYX_args \<Rightarrow> cells list \<Rightarrow> GENDY_state
     \<Rightarrow> fault + (GENDY_state \<times> real option list list)" where
  "gendyx_run R cs a [] p = Inr (p, [])"
| "gendyx_run R cs a (c # bs) p =
     (case gendyx_process_arate R cs c a p of
        Inl e \<Rightarrow> Inl e
      | Inr (c', p', ys) \<Rightarrow>
          (case gendyx_run R cs a bs p' of
             Inl e \<Rightarrow> Inl e
           | Inr (p'', yss) \<Rightarrow> Inr (p'', ys # yss)))"

subsection \<open>A concrete instance for the examples\<close>

text \<open>
  One control point, pass-through perturbations (kind 6 with parameter 1), both frequency
  bounds at 110250 Hz for a sample rate of 44100 Hz, so that every advance sets
  \<open>speed\<close> to 2.5.
\<close>

definition ex_args :: GENDY_args where
  "ex_args = \<lparr>kamp = 0, ampdist = 1, durdist = 2, adpar = 3, ddpar = 4, minfreq = 5,
      maxfreq = 6, ampscl = 7, durscl = 8, initcps = 9, knum = 10\<rparr>"

definition ex_xargs :: GENDYX_args where
  "ex_xargs = \<lparr>kamp = 0, ampdist = 1, durdist = 2, adpar = 3, ddpar = 4, minfreq = 5,
      maxfreq = 6, ampscl = 7, durscl = 8, initcps = 9, knum = 10,
      kcurveup = 11, kcurvedown = 12\<rparr>"

definition ex_cells :: cells where
  "ex_cells = (\<lambda>_. 0)(0 := 1, 1 := 6, 2 := 6, 3 := 1, 4 := 1, 5 := 110250, 6 := 110250,
      7 := 1 / 2, 8 := 0, 9 := 1, 10 := 1, 11 := 1, 12 := 1)"

definition ex_host :: CSOUND where
  "ex_host = \<lparr>ksmps = 2, onedsr = 1 / 44100, randSeed1 = 1\<rparr>"

definition ex_rand :: rand31 where
  "ex_rand x = 5 * x + 3"

definition ex_fresh :: GENDY_state where
  "ex_fresh = \<lparr>phase = 1, amp = 0, nextamp = 0, dur = 0, speed = 100, index = 0,
      rand = 1, memamp = [0], memdur = [1 / 2]\<rparr>"

section \<open>Auxiliary facts\<close>

lemma dv2_31_eq: "dv2_31 = 1 / 2 ^ 31"
  by (simp add: dv2_31_def)

subsection \<open>The C library functions and the raw draws\<close>

lemma FMOD_nonneg:
  assumes x: "0 \<le> x" and y: "0 < y"
  shows "0 \<le> FMOD x y \<and> FMOD x y < y"
proof -
  have q: "0 \<le> x / y" using x y by simp
  have 1: "real_of_int \<lfloor>x / y\<rfloor> \<le> x / y" by simp
  have 2: "x / y < real_of_int \<lfloor>x / y\<rfloor> + 1" by linarith
  have "real_of_int \<lfloor>x / y\<rfloor> * y \<le> (x / y) * y"
    using 1 y by (intro mult_right_mono) simp_all
  moreover have "(x / y) * y < (real_of_int \<lfloor>x / y\<rfloor> + 1) * y"
    using 2 y by (intro mult_strict_right_mono) simp_all
  moreover have "(x / y) * y = x" using y by simp
  ultimately show ?thesis using q y by (simp add: FMOD_def c_trunc_def algebra_simps)
qed

lemma sint32_real_range:
  "- (2 ^ 31) \<le> real_of_int (sint (w :: 32 word)) \<and> real_of_int (sint w) < 2 ^ 31"
proof -
  have "- (2 ^ 31) \<le> sint w" "sint w < 2 ^ 31"
    using sint_ge [of w] sint_lt [of w] by simp_all
  then have "real_of_int (- (2 ^ 31)) \<le> real_of_int (sint w)"
    "real_of_int (sint w) < real_of_int (2 ^ 31)"
    by (simp_all only: of_int_le_iff of_int_less_iff)
  then show ?thesis by simp
qed

lemma bipolar_of_range: "- 1 \<le> bipolar_of r \<and> bipolar_of r < 1"
  using sint32_real_range [of "push_bit 1 r - BIPOLAR"]
  by (simp add: bipolar_of_def dv2_31_eq field_simps)

lemma POWER_one: "POWER x 1 = Some x"
  by (simp add: POWER_def)

subsection \<open>Where the mirrors do fold into range\<close>

lemma mirror_amp_range:
  assumes "- 5 \<le> v" shows "- 1 \<le> mirror_amp v \<and> mirror_amp v \<le> 1"
proof (cases "v < - 1 \<or> v > 1")
  case False
  then show ?thesis by (simp add: mirror_amp_def)
next
  case True
  define v1 where "v1 = (if v < 0 then v + 4 else v)"
  have "0 \<le> v1 \<or> (- 1 \<le> v1 \<and> v1 < 0)" using assms True by (auto simp: v1_def)
  then show ?thesis
  proof
    assume "0 \<le> v1"
    then have "0 \<le> FMOD v1 4 \<and> FMOD v1 4 < 4" by (intro FMOD_nonneg) simp_all
    then show ?thesis using True by (auto simp: mirror_amp_def v1_def Let_def)
  next
    assume a: "- 1 \<le> v1 \<and> v1 < 0"
    then have "- 1 < v1 / 4" "v1 / 4 < 0" by simp_all
    then have "\<lceil>v1 / 4\<rceil> = 0" by linarith
    then have "FMOD v1 4 = v1" using a by (simp add: FMOD_def c_trunc_def)
    then show ?thesis using True a by (auto simp: mirror_amp_def v1_def Let_def)
  qed
qed

lemma mirror_dur_range:
  assumes "- 1 \<le> d" "d < 2" shows "0 \<le> mirror_dur d \<and> mirror_dur d \<le> 1"
proof -
  have p: "1 < d \<Longrightarrow> FMOD d 2 = d"
  proof -
    assume "1 < d"
    then have "0 \<le> d / 2" "d / 2 < 1" using assms by simp_all
    then have "\<lfloor>d / 2\<rfloor> = 0" by linarith
    then show ?thesis using \<open>0 \<le> d / 2\<close> by (simp add: FMOD_def c_trunc_def)
  qed
  have n: "d < 0 \<Longrightarrow> FMOD (d + 2) 2 = d + 2"
  proof -
    assume "d < 0"
    then have "0 \<le> (d + 2) / 2" "(d + 2) / 2 < 1" using assms by simp_all
    then have "\<lfloor>(d + 2) / 2\<rfloor> = 0" by linarith
    then show ?thesis using \<open>0 \<le> (d + 2) / 2\<close> by (simp add: FMOD_def c_trunc_def)
  qed
  show ?thesis using assms p n by (auto simp: mirror_dur_def)
qed

subsection \<open>The initial fill\<close>

lemma funpow_two_more: "(f ^^ Suc (Suc k)) x = (f ^^ k) (f (f x))"
  by (simp add: funpow_swap1)

lemma init_fill_length:
  "length (memamp (init_fill R i n p)) = length (memamp p)
   \<and> length (memdur (init_fill R i n p)) = length (memdur p)"
proof (induction R i n p rule: init_fill.induct)
  case (1 R i n p)
  show ?case
  proof (cases "i < n")
    case True
    then show ?thesis using 1 by (subst (1 2) init_fill.simps) (simp add: Let_def)
  next
    case False
    then show ?thesis by (subst (1 2) init_fill.simps) simp
  qed
qed

lemma init_fill_fields:
  "phase (init_fill R i n p) = phase p \<and> amp (init_fill R i n p) = amp p
   \<and> nextamp (init_fill R i n p) = nextamp p \<and> speed (init_fill R i n p) = speed p
   \<and> index (init_fill R i n p) = index p"
proof (induction R i n p rule: init_fill.induct)
  case (1 R i n p)
  show ?case
  proof (cases "i < n")
    case True
    then show ?thesis using 1 by (subst (1 2 3 4 5) init_fill.simps) (simp add: Let_def)
  next
    case False
    then show ?thesis by (subst (1 2 3 4 5) init_fill.simps) simp
  qed
qed

lemma init_fill_rand:
  "i \<le> n \<Longrightarrow> rand (init_fill R i n p) = (R ^^ (2 * (n - i))) (rand p)"
proof (induction R i n p rule: init_fill.induct)
  case (1 R i n p)
  show ?case
  proof (cases "i < n")
    case True
    then have e: "2 * (n - i) = 2 * (n - Suc i) + 2" by simp
    show ?thesis using True 1
      by (subst init_fill.simps) (simp add: Let_def e funpow_two_more del: funpow.simps)
  next
    case False
    then show ?thesis using 1 by (subst init_fill.simps) simp
  qed
qed

lemma init_fill_mem:
  "n \<le> length (memamp p) \<Longrightarrow> n \<le> length (memdur p) \<Longrightarrow> j < n \<Longrightarrow>
   memamp (init_fill R i n p) ! j =
     (if i \<le> j then bipolar_of ((R ^^ (2 * (j - i) + 1)) (rand p)) else memamp p ! j)
   \<and> memdur (init_fill R i n p) ! j =
     (if i \<le> j then unipolar_of ((R ^^ (2 * (j - i) + 2)) (rand p)) else memdur p ! j)"
proof (induction R i n p rule: init_fill.induct)
  case (1 R i n p)
  show ?case
  proof (cases "i < n")
    case True
    show ?thesis
    proof (cases "Suc i \<le> j")
      case s: True
      have e1: "2 * (j - i) + 1 = Suc (Suc (2 * (j - Suc i) + 1))"
        and e2: "2 * (j - i) + 2 = Suc (Suc (2 * (j - Suc i) + 2))" using s by simp_all
      show ?thesis using True s 1
        apply (subst (1 2) init_fill.simps)
        apply (simp only: e1 e2 funpow_two_more)
        apply (simp add: Let_def del: funpow.simps)
        done
    next
      case s: False
      show ?thesis using True s 1
        apply (subst (1 2) init_fill.simps)
        apply (simp add: Let_def del: funpow.simps)
        apply (auto simp: not_less_eq_eq le_Suc_eq)
        done
    qed
  next
    case False
    then show ?thesis using 1 by (subst (1 2) init_fill.simps) simp
  qed
qed

section \<open>The distribution sampler\<close>

text \<open>
  C5. For every kind, every draw and every shape parameter outside \<open>[0.0001, 1]\<close>, the
  sampler returns what it returns for the parameter clamped into that range; kind 6
  returns the clamped parameter itself.
\<close>

theorem sampler_clamps_shape:
  "p < 0.0001 \<or> 1 < p \<Longrightarrow>
     gendy_distribution k p r = gendy_distribution k (clamp_shape p) r
     \<and> gendy_distribution 6 p r = clamp_shape p"
  by (auto simp add: gendy_distribution_def clamp_shape_def)

theorem sampler_clamps_shape_witness:
  "((2::real) < 0.0001 \<or> 1 < (2::real)) \<and>
     gendy_distribution 6 2 0 = gendy_distribution 6 (clamp_shape 2) 0
     \<and> gendy_distribution 6 2 0 = clamp_shape 2 \<and> clamp_shape 2 = 1"
  using sampler_clamps_shape [of 2 6 0] by (simp add: clamp_shape_def)

text \<open>
  C6. For every kind outside \<open>{0, ..., 6}\<close>, every shape parameter and every draw, the
  sampler returns what kind 0 returns: the draw mapped to the bipolar range, whatever the
  shape parameter.
\<close>

theorem sampler_unknown_kind:
  "k \<notin> {0, 1, 2, 3, 4, 5, 6} \<Longrightarrow>
     gendy_distribution k p r = gendy_distribution 0 p r
     \<and> gendy_distribution k p r = bipolar_of r"
  by (simp add: gendy_distribution_def)

theorem sampler_unknown_kind_witness:
  "(7::int) \<notin> {0, 1, 2, 3, 4, 5, 6} \<and>
     gendy_distribution 7 (1/2) 3 = gendy_distribution 0 (1/2) 3
     \<and> gendy_distribution 7 (1/2) 3 = bipolar_of 3"
  using sampler_unknown_kind [of 7 "1/2" 3] by simp

section \<open>The mirrors\<close>

text \<open>
  C9. The amplitude mirror sends the candidate 2.5 to -0.5, and the duration mirror sends
  the candidate 1.5 to 0.5.
\<close>

theorem mirror_boundary_values:
  "mirror_amp 2.5 = - 0.5 \<and> mirror_dur 1.5 = 0.5"
  by (simp add: mirror_amp_def mirror_dur_def FMOD_def c_trunc_def)

section \<open>The breakpoint advance\<close>

lemma smod_nonneg_range:
  "0 \<le> (k::int) \<Longrightarrow> 0 < l \<Longrightarrow> 0 \<le> k smod l \<and> k smod l < l"
  by (cases "k = 0") (simp_all add: signed_modulo_int_def)

lemma gendy_breakpoint_fields:
  assumes "gendy_breakpoint R cs c a icps minf maxf kn p = Inr (kn', p')"
  shows "kn' = (if kn > icps \<or> kn < 1 then icps else kn)"
    and "phase p' = phase p - 1"
    and "amp p' = nextamp p"
    and "index p' = (index p + 1) smod kn'"
    and "rand p' = R (R (rand p))"
    and "nextamp p' = mirror_amp (memamp p ! nat (index p') + c (ampscl a) *
           gendy_distribution (c_trunc (c (ampdist a))) (c (adpar a)) (R (rand p)))"
    and "dur p' = mirror_dur (memdur p ! nat (index p') + c (durscl a) *
           gendy_distribution (c_trunc (c (durdist a))) (c (ddpar a)) (R (R (rand p))))"
    and "speed p' = (minf + (maxf - minf) * dur p') * onedsr cs * real_of_int kn'"
    and "memamp p' = (memamp p)[nat (index p') := nextamp p']"
    and "memdur p' = (memdur p)[nat (index p') := dur p']"
    and "0 \<le> index p' \<and> index p' < int (length (memamp p))
         \<and> index p' < int (length (memdur p))"
  using assms
  by (auto simp: gendy_breakpoint_def Let_def split: if_splits)

lemma gendy_breakpoint_ok:
  assumes "inst_ok icps p"
  shows "\<exists>kn' p'. gendy_breakpoint R cs c a icps minf maxf kn p = Inr (kn', p')
           \<and> inst_ok icps p'"
proof -
  define k where "k = (if kn > icps \<or> kn < 1 then icps else kn)"
  have k: "1 \<le> k" "k \<le> icps" using assms by (auto simp: k_def inst_ok_def)
  have "0 \<le> index p + 1" using assms by (simp add: inst_ok_def)
  then have i: "0 \<le> (index p + 1) smod k \<and> (index p + 1) smod k < k"
    using k by (intro smod_nonneg_range) simp_all
  then have b: "(index p + 1) smod k < int (length (memamp p))"
    "(index p + 1) smod k < int (length (memdur p))"
    using k assms by (simp_all add: inst_ok_def)
  show ?thesis
    using i b k assms
    by (simp add: gendy_breakpoint_def Let_def k_def [symmetric] inst_ok_def)
qed

lemma gendy_pending_ok:
  assumes "inst_ok icps p"
  shows "\<exists>kn' p'. gendy_pending R cs c a icps minf maxf kn p = Inr (kn', p')
           \<and> inst_ok icps p'"
  using assms gendy_breakpoint_ok [OF assms, of R cs c a minf maxf kn]
  by (simp add: gendy_pending_def)

lemma gendy_sample_ok:
  assumes "inst_ok icps p"
  shows "\<exists>kn' p' y. gendy_sample R cs c a icps minf maxf kn p = Inr (kn', p', y)
           \<and> inst_ok icps p'"
proof -
  obtain kn' p' where "gendy_pending R cs c a icps minf maxf kn p = Inr (kn', p')"
    "inst_ok icps p'"
    using gendy_pending_ok [OF assms] by blast
  then show ?thesis by (simp add: gendy_sample_def inst_ok_def)
qed

lemma gendy_loop_ok:
  "inst_ok icps p \<Longrightarrow>
     \<exists>p' ys. gendy_loop R cs c a icps minf maxf n kn p = Inr (p', ys)
       \<and> length ys = n \<and> inst_ok icps p'"
proof (induction n arbitrary: kn p)
  case 0
  then show ?case by simp
next
  case (Suc n)
  obtain kn1 p1 y where s: "gendy_sample R cs c a icps minf maxf kn p = Inr (kn1, p1, y)"
    and ok: "inst_ok icps p1"
    using gendy_sample_ok [OF Suc.prems] by blast
  obtain p2 ys where "gendy_loop R cs c a icps minf maxf n kn1 p1 = Inr (p2, ys)"
    "length ys = n" "inst_ok icps p2"
    using Suc.IH [OF ok] by blast
  then show ?case using s by simp
qed

section \<open>Initialisation\<close>

lemma c_trunc_ge_one: "1 \<le> x \<Longrightarrow> 1 \<le> c_trunc x"
  by (simp add: c_trunc_def le_floor_iff)

lemma gendy_init_cells:
  assumes "gendy_init R cs c a p = (cs', c', p')"
  shows "c' = (if c (initcps a) < 1 then c(initcps a := 12)
               else if c (initcps a) > 8192 then c(initcps a := 8192) else c)"
    and "1 \<le> c' (initcps a) \<and> c' (initcps a) \<le> 8192"
  using assms by (auto simp: gendy_init_def Let_def GENDYMAXCPS_def split: if_splits)

lemma gendy_init_state:
  assumes "gendy_init R cs c a p = (cs', c', p')"
  shows "phase p' = 1" "amp p' = 0" "nextamp p' = 0" "speed p' = 100" "index p' = 0"
    and "length (memamp p') = nat (c_trunc (c' (initcps a)))"
    and "length (memdur p') = nat (c_trunc (c' (initcps a)))"
    and "randSeed1 cs' = R (randSeed1 cs)"
  using assms
  by (auto simp: gendy_init_def Let_def init_fill_fields init_fill_length AuxAlloc_def
      split: if_splits)

lemma gendy_init_ok:
  assumes "gendy_init R cs c a p = (cs', c', p')"
  shows "inst_ok (c_trunc (c' (initcps a))) p'"
proof -
  have "1 \<le> c_trunc (c' (initcps a))"
    using gendy_init_cells(2) [OF assms] by (simp add: c_trunc_ge_one)
  then show ?thesis
    using gendy_init_state [OF assms] by (simp add: inst_ok_def)
qed

section \<open>Evaluation at concrete inputs\<close>

lemmas ex_defs = ex_args_def ex_xargs_def ex_cells_def ex_host_def ex_rand_def ex_fresh_def
lemmas eval_defs = gendy_sample_def gendy_pending_def gendy_breakpoint_def Let_def
  gendy_distribution_def c_trunc_def mirror_amp_def mirror_dur_def FMOD_def
  signed_modulo_int_def ceiling_def

section \<open>The mirrors on far candidates\<close>

text \<open>
  C2. The duration mirror is claimed to send every candidate into \<open>[0, 1]\<close>. The code
  sends the candidate 2.5 to 1.5: from a stored duration 0.5 with \<open>durscl = 2\<close> and a
  pass-through perturbation of 1, the advance leaves 1.5 in \<open>dur\<close> and in the store.
\<close>

theorem duration_mirror_overshoots:
  "mirror_dur (5 / 2) = 3 / 2
   \<and> gendy_breakpoint ex_rand ex_host (ex_cells(8 := 2)) ex_args 1 110250 110250 1 ex_fresh
       = Inr (1, \<lparr>phase = 0, amp = 0, nextamp = 1 / 2, dur = 3 / 2, speed = 5 / 2,
                   index = 0, rand = 43, memamp = [1 / 2], memdur = [3 / 2]\<rparr>)"
  by (simp add: ex_defs eval_defs)

text \<open>
  C3. The amplitude mirror is claimed to send every candidate into \<open>[-1, 1]\<close>. The code
  sends the candidate -6 to -2: from a stored amplitude 0 with \<open>ampscl = -6\<close> and a
  pass-through perturbation of 1, the advance leaves -2 in \<open>nextamp\<close> and in the store.
\<close>

theorem amplitude_mirror_overshoots:
  "mirror_amp (- 6) = - 2
   \<and> gendy_breakpoint ex_rand ex_host (ex_cells(7 := - 6)) ex_args 1 110250 110250 1 ex_fresh
       = Inr (1, \<lparr>phase = 0, amp = 0, nextamp = - 2, dur = 1 / 2, speed = 5 / 2,
                   index = 0, rand = 43, memamp = [- 2], memdur = [1 / 2]\<rparr>)"
  by (simp add: ex_defs eval_defs)

section \<open>One advance per sample\<close>




section \<open>The draws\<close>

lemma gendy_init_draws:
  assumes i: "gendy_init R cs0 c0 a p0 = (cs1, c1, p1)"
  defines "n \<equiv> nat (c_trunc (c1 (initcps a)))"
  shows "length (memamp p1) = n" and "length (memdur p1) = n"
    and "rand p1 = (R ^^ (2 * n)) (R (randSeed1 cs0))"
    and "\<forall>j<n. memamp p1 ! j = bipolar_of ((R ^^ (2 * j + 1)) (R (randSeed1 cs0)))
            \<and> memdur p1 ! j = unipolar_of ((R ^^ (2 * j + 2)) (R (randSeed1 cs0)))"
proof -
  define q where "q = p0\<lparr>amp := 0, nextamp := 0, phase := 1, speed := 100, index := 0,
      memamp := AuxAlloc n, memdur := AuxAlloc n, rand := R (randSeed1 cs0)\<rparr>"
  have p1: "p1 = init_fill R 0 n q"
    using i by (auto simp: gendy_init_def Let_def n_def q_def split: if_splits)
  have q: "length (memamp q) = n" "length (memdur q) = n" "rand q = R (randSeed1 cs0)"
    by (simp_all add: q_def AuxAlloc_def)
  show "length (memamp p1) = n" "length (memdur p1) = n"
    using q by (simp_all add: p1 init_fill_length)
  show "rand p1 = (R ^^ (2 * n)) (R (randSeed1 cs0))"
    using init_fill_rand [of 0 n R q] q by (simp add: p1 del: funpow.simps)
  show "\<forall>j<n. memamp p1 ! j = bipolar_of ((R ^^ (2 * j + 1)) (R (randSeed1 cs0)))
            \<and> memdur p1 ! j = unipolar_of ((R ^^ (2 * j + 2)) (R (randSeed1 cs0)))"
  proof (intro allI impI)
    fix j
    assume "j < n"
    then show "memamp p1 ! j = bipolar_of ((R ^^ (2 * j + 1)) (R (randSeed1 cs0)))
            \<and> memdur p1 ! j = unipolar_of ((R ^^ (2 * j + 2)) (R (randSeed1 cs0)))"
      using init_fill_mem [of n q j R 0] q by (simp add: p1 del: funpow.simps)
  qed
qed

text \<open>
  C8. Every breakpoint advance moves the register of the pseudo-random sequence by
  exactly two draws, of which the first feeds the amplitude perturbation and the second
  the duration perturbation, whatever the distribution kinds. The initial fill moves it by
  twice the capacity, starting from the seed drawn from the host: point \<open>i\<close> takes
  draw \<open>2i + 1\<close> for its amplitude and draw \<open>2i + 2\<close> for its duration.
\<close>

theorem two_draws_per_advance:
  "(gendy_breakpoint R cs c a icps minf maxf kn p = Inr (kn', p') \<longrightarrow>
      rand p' = R (R (rand p))
      \<and> nextamp p' = mirror_amp (memamp p ! nat (index p') + c (ampscl a) *
           gendy_distribution (c_trunc (c (ampdist a))) (c (adpar a)) (R (rand p)))
      \<and> dur p' = mirror_dur (memdur p ! nat (index p') + c (durscl a) *
           gendy_distribution (c_trunc (c (durdist a))) (c (ddpar a)) (R (R (rand p)))))
   \<and> (gendy_init R cs0 c0 a p0 = (cs1, c1, p1) \<longrightarrow>
      length (memamp p1) = nat (c_trunc (c1 (initcps a)))
      \<and> length (memdur p1) = nat (c_trunc (c1 (initcps a)))
      \<and> rand p1 = (R ^^ (2 * nat (c_trunc (c1 (initcps a))))) (R (randSeed1 cs0))
      \<and> (\<forall>i < nat (c_trunc (c1 (initcps a))).
            memamp p1 ! i = bipolar_of ((R ^^ (2 * i + 1)) (R (randSeed1 cs0)))
            \<and> memdur p1 ! i = unipolar_of ((R ^^ (2 * i + 2)) (R (randSeed1 cs0)))))"
proof (rule conjI; rule impI)
  assume b: "gendy_breakpoint R cs c a icps minf maxf kn p = Inr (kn', p')"
  show "rand p' = R (R (rand p))
      \<and> nextamp p' = mirror_amp (memamp p ! nat (index p') + c (ampscl a) *
           gendy_distribution (c_trunc (c (ampdist a))) (c (adpar a)) (R (rand p)))
      \<and> dur p' = mirror_dur (memdur p ! nat (index p') + c (durscl a) *
           gendy_distribution (c_trunc (c (durdist a))) (c (ddpar a)) (R (R (rand p))))"
    using gendy_breakpoint_fields(5,6,7) [OF b] by (intro conjI)
next
  assume i: "gendy_init R cs0 c0 a p0 = (cs1, c1, p1)"
  show "length (memamp p1) = nat (c_trunc (c1 (initcps a)))
      \<and> length (memdur p1) = nat (c_trunc (c1 (initcps a)))
      \<and> rand p1 = (R ^^ (2 * nat (c_trunc (c1 (initcps a))))) (R (randSeed1 cs0))
      \<and> (\<forall>i < nat (c_trunc (c1 (initcps a))).
            memamp p1 ! i = bipolar_of ((R ^^ (2 * i + 1)) (R (randSeed1 cs0)))
            \<and> memdur p1 ! i = unipolar_of ((R ^^ (2 * i + 2)) (R (randSeed1 cs0))))"
    using gendy_init_draws [OF i] by (intro conjI)
qed

theorem two_draws_per_advance_witness:
  "gendy_breakpoint ex_rand ex_host ex_cells ex_args 1 110250 110250 1 ex_fresh
       = Inr (1, \<lparr>phase = 0, amp = 0, nextamp = 1 / 2, dur = 1 / 2, speed = 5 / 2,
                   index = 0, rand = 43, memamp = [1 / 2], memdur = [1 / 2]\<rparr>)
   \<and> (43 :: 32 word) = ex_rand (ex_rand (rand ex_fresh))
   \<and> (1 / 2 :: real) = mirror_amp (memamp ex_fresh ! 0 + ex_cells 7 *
           gendy_distribution (c_trunc (ex_cells 1)) (ex_cells 3) (ex_rand (rand ex_fresh)))
   \<and> gendy_init ex_rand ex_host (ex_cells(9 := 2)) ex_args ex_fresh
       = (ex_host\<lparr>randSeed1 := 8\<rparr>, ex_cells(9 := 2),
          init_fill ex_rand 0 2 (ex_fresh\<lparr>memamp := [0, 0], memdur := [0, 0], rand := 8\<rparr>))
   \<and> rand (init_fill ex_rand 0 2 (ex_fresh\<lparr>memamp := [0, 0], memdur := [0, 0], rand := 8\<rparr>))
       = 5468
   \<and> memdur (init_fill ex_rand 0 2 (ex_fresh\<lparr>memamp := [0, 0], memdur := [0, 0],
          rand := 8\<rparr>)) ! 1 = unipolar_of 5468"
proof -
  have h1: "gendy_breakpoint ex_rand ex_host ex_cells ex_args 1 110250 110250 1 ex_fresh
       = Inr (1, \<lparr>phase = 0, amp = 0, nextamp = 1 / 2, dur = 1 / 2, speed = 5 / 2,
                   index = 0, rand = 43, memamp = [1 / 2], memdur = [1 / 2]\<rparr>)"
    by (simp add: ex_defs eval_defs)
  have h2: "gendy_init ex_rand ex_host (ex_cells(9 := 2)) ex_args ex_fresh
       = (ex_host\<lparr>randSeed1 := 8\<rparr>, ex_cells(9 := 2),
          init_fill ex_rand 0 2 (ex_fresh\<lparr>memamp := [0, 0], memdur := [0, 0], rand := 8\<rparr>))"
    by (simp add: ex_defs gendy_init_def Let_def c_trunc_def GENDYMAXCPS_def AuxAlloc_def
        numeral_2_eq_2)
  have c: "c_trunc ((ex_cells(9 := 2)) (initcps ex_args)) = 2" "randSeed1 ex_host = 1"
    "ex_rand 1 = 8" "ex_cells (ampscl ex_args) = ex_cells 7"
    "ex_cells (ampdist ex_args) = ex_cells 1" "ex_cells (adpar ex_args) = ex_cells 3"
    by (simp_all add: ex_defs c_trunc_def)
  note t = two_draws_per_advance [where R = ex_rand and cs = ex_host and c = ex_cells
      and a = ex_args and icps = 1 and minf = 110250 and maxf = 110250 and kn = 1
      and p = ex_fresh and kn' = 1 and cs0 = ex_host and ?c0.0 = "ex_cells(9 := 2)"
      and ?p0.0 = ex_fresh]
  show ?thesis using h1 h2 t [THEN conjunct1, rule_format, OF h1]
      t [THEN conjunct2, rule_format, OF h2] c
    by (simp add: eval_nat_numeral ex_rand_def)
qed

section \<open>The first sample\<close>

text \<open>
  C10. For every seed, capacity and configuration, the first sample the linear variant
  writes after initialisation is 0 (the block is not empty, and the \<open>initcps\<close> cell
  still holds what initialisation left there).
\<close>

theorem first_sample_is_zero:
  assumes "gendy_init R cs0 c0 a p0 = (cs1, c1, p1)"
    and "c (initcps a) = c1 (initcps a)"
    and "0 < ksmps cs"
  shows "\<exists>p2 ys. gendy_process_arate R cs c a p1 = Inr (p2, ys)
           \<and> length ys = ksmps cs \<and> ys ! 0 = 0"
proof -
  define icps where "icps = c_trunc (c (initcps a))"
  define minf where "minf = c (minfreq a)"
  define maxf where "maxf = c (maxfreq a)"
  define kn where "kn = c_trunc (c (knum a))"
  have ok: "inst_ok icps p1"
    using gendy_init_ok [OF assms(1)] assms(2) by (simp add: icps_def)
  have st: "phase p1 = 1" "nextamp p1 = 0"
    using gendy_init_state [OF assms(1)] by simp_all
  obtain kb pb where b: "gendy_breakpoint R cs c a icps minf maxf kn p1 = Inr (kb, pb)"
    and okb: "inst_ok icps pb"
    using gendy_breakpoint_ok [OF ok] by blast
  have pb: "phase pb = 0" "amp pb = 0"
    using gendy_breakpoint_fields(2,3) [OF b] st by simp_all
  have s: "gendy_sample R cs c a icps minf maxf kn p1
             = Inr (kb, pb\<lparr>phase := phase pb + speed pb\<rparr>, 0)"
    using b pb st by (simp add: gendy_sample_def gendy_pending_def)
  have okb': "inst_ok icps (pb\<lparr>phase := phase pb + speed pb\<rparr>)"
    using okb by (simp add: inst_ok_def)
  obtain n where n: "ksmps cs = Suc n" using assms(3) by (cases "ksmps cs") simp_all
  obtain p2 ys where l: "gendy_loop R cs c a icps minf maxf n kb
      (pb\<lparr>phase := phase pb + speed pb\<rparr>) = Inr (p2, ys)" "length ys = n"
    using gendy_loop_ok [OF okb'] by blast
  have "gendy_process_arate R cs c a p1 = Inr (p2, 0 # ys)"
    using s l n
    by (simp add: gendy_process_arate_def icps_def minf_def maxf_def kn_def)
  then show ?thesis using l n by simp
qed

theorem first_sample_is_zero_witness:
  "0 < ksmps ex_host
   \<and> (ex_cells(9 := 12, 7 := 1)) (initcps ex_args)
       = fst (snd (gendy_init ex_rand ex_host (ex_cells(9 := 0)) ex_args ex_fresh))
           (initcps ex_args)
   \<and> (\<exists>p2 ys. gendy_process_arate ex_rand ex_host (ex_cells(9 := 12, 7 := 1)) ex_args
                 (snd (snd (gendy_init ex_rand ex_host (ex_cells(9 := 0)) ex_args ex_fresh)))
               = Inr (p2, ys)
         \<and> length ys = ksmps ex_host \<and> ys ! 0 = 0)"
proof -
  have h1: "gendy_init ex_rand ex_host (ex_cells(9 := 0)) ex_args ex_fresh
      = (fst (gendy_init ex_rand ex_host (ex_cells(9 := 0)) ex_args ex_fresh),
         fst (snd (gendy_init ex_rand ex_host (ex_cells(9 := 0)) ex_args ex_fresh)),
         snd (snd (gendy_init ex_rand ex_host (ex_cells(9 := 0)) ex_args ex_fresh)))"
    by simp
  have h2: "(ex_cells(9 := 12, 7 := 1)) (initcps ex_args)
       = fst (snd (gendy_init ex_rand ex_host (ex_cells(9 := 0)) ex_args ex_fresh))
           (initcps ex_args)"
    by (simp add: gendy_init_def Let_def ex_defs)
  have h3: "0 < ksmps ex_host" by (simp add: ex_host_def)
  show ?thesis
    using first_sample_is_zero [where R = ex_rand and ?cs0.0 = ex_host
        and ?c0.0 = "ex_cells(9 := 0)" and a = ex_args and ?p0.0 = ex_fresh
        and c = "ex_cells(9 := 12, 7 := 1)" and cs = ex_host, OF h1 h2 h3] h2 h3
    by blast
qed

section \<open>What is written to the caller's cells\<close>

lemma curve_cells_after:
  "(let c1 = (if c u < 0 then c(u := 0) else c);
        c2 = (if c1 d < 0 then c1(d := 0) else c1) in c2)
   = c(u := max 0 (c u), d := max 0 (c d :: real))"
  by (auto simp: fun_eq_iff max_def Let_def)

lemma gendyx_sample_cells:
  assumes "gendyx_sample R cs c a icps minf maxf kn p = Inr (kn', c', p', z)"
  shows "c' = c(kcurveup a := max 0 (c (kcurveup a)),
                kcurvedown a := max 0 (c (kcurvedown a)))"
proof -
  have "c' = (let c1 = (if c (kcurveup a) < 0 then c(kcurveup a := 0) else c);
        c2 = (if c1 (kcurvedown a) < 0 then c1(kcurvedown a := 0) else c1) in c2)"
    using assms by (auto simp: gendyx_sample_def Let_def split: sum.splits)
  then show ?thesis by (simp only: curve_cells_after)
qed

lemma gendyx_loop_cells_fixed:
  "0 \<le> c (kcurveup a) \<Longrightarrow> 0 \<le> c (kcurvedown a) \<Longrightarrow>
   gendyx_loop R cs a icps minf maxf n kn c p = Inr (c', p', zs) \<Longrightarrow> c' = c"
proof (induction n arbitrary: kn p p' zs)
  case 0
  then show ?case by simp
next
  case (Suc n)
  from Suc.prems(3) obtain kn1 c1 p1 z where
    s: "gendyx_sample R cs c a icps minf maxf kn p = Inr (kn1, c1, p1, z)"
    by (auto split: sum.splits)
  have "c1 = c(kcurveup a := max 0 (c (kcurveup a)),
                kcurvedown a := max 0 (c (kcurvedown a)))"
    using gendyx_sample_cells [OF s] .
  then have c1: "c1 = c" using Suc.prems(1,2) by (simp add: max_def)
  from Suc.prems(3) s c1 obtain p2 zs2 where
    "gendyx_loop R cs a icps minf maxf n kn1 c p1 = Inr (c', p2, zs2)"
    by (auto split: sum.splits)
  then show ?case using Suc.IH [OF Suc.prems(1,2)] by blast
qed

lemma gendyx_loop_cells:
  assumes "gendyx_loop R cs a icps minf maxf n kn c p = Inr (c', p', zs)"
  shows "c' = (if n = 0 then c
               else c(kcurveup a := max 0 (c (kcurveup a)),
                      kcurvedown a := max 0 (c (kcurvedown a))))"
proof (cases n)
  case 0
  then show ?thesis using assms by simp
next
  case (Suc m)
  define c2 where "c2 = c(kcurveup a := max 0 (c (kcurveup a)),
                      kcurvedown a := max 0 (c (kcurvedown a)))"
  from assms Suc obtain kn1 c1 p1 z where
    s: "gendyx_sample R cs c a icps minf maxf kn p = Inr (kn1, c1, p1, z)"
    by (auto split: sum.splits)
  have c1: "c1 = c2" using gendyx_sample_cells [OF s] by (simp add: c2_def)
  from assms Suc s c1 obtain p2 zs2 where
    l: "gendyx_loop R cs a icps minf maxf m kn1 c2 p1 = Inr (c', p2, zs2)"
    by (auto split: sum.splits)
  have "0 \<le> c2 (kcurveup a)" "0 \<le> c2 (kcurvedown a)"
    by (simp_all add: c2_def)
  then have "c' = c2" using gendyx_loop_cells_fixed l by blast
  then show ?thesis using Suc by (simp add: c2_def)
qed

text \<open>
  C4, as stated, fails: initialisation with 0 in the \<open>initcps\<close> cell leaves 12 in that
  cell, and a block of the curved variant with -1 in the \<open>kcurveup\<close> cell leaves 0 in
  that cell.
\<close>

theorem clamps_written_back_counterexample:
  "(ex_cells(9 := 0)) (initcps ex_args) = 0
   \<and> fst (snd (gendy_init ex_rand ex_host (ex_cells(9 := 0)) ex_args ex_fresh))
        (initcps ex_args) = 12
   \<and> (ex_cells(11 := - 1)) (kcurveup ex_xargs) = - 1
   \<and> gendyx_process_arate ex_rand ex_host (ex_cells(11 := - 1)) ex_xargs ex_fresh
       = Inr (ex_cells(11 := 0),
              \<lparr>phase = 4, amp = 1 / 2, nextamp = 1, dur = 1 / 2, speed = 5 / 2,
                 index = 0, rand = 1093, memamp = [1], memdur = [1 / 2]\<rparr>,
              [Some (1 / 2), Some 1])"
  by (simp add: ex_defs eval_defs gendy_init_def gendyx_process_arate_def gendyx_sample_def
      POWER_def numeral_2_eq_2)

text \<open>
  C4, amended. The clamps of the shape parameters and of the active count work on local
  copies. The clamp of the capacity is written back: initialisation (of either variant)
  leaves the clamped capacity, 12 for a value below 1 and 8192 for a value above 8192, in
  the caller's \<open>initcps\<close> cell and writes no other cell. The clamp of the curve exponents
  is written back: a non-empty block of the curved variant leaves the larger of 0 and the
  old value in the caller's \<open>kcurveup\<close> and \<open>kcurvedown\<close> cells and writes no other
  cell. The linear variant's processing only reads the cells.
\<close>

theorem clamp_write_back:
  "(gendy_init R cs c a p = (cs1, c1, p1) \<longrightarrow>
      c1 = c(initcps a := (if c (initcps a) < 1 then 12
                           else if c (initcps a) > 8192 then 8192 else c (initcps a))))
   \<and> (gendyx_init R cs c ax p = (cs2, c2, p2) \<longrightarrow>
      c2 = c(initcps ax := (if c (initcps ax) < 1 then 12
                           else if c (initcps ax) > 8192 then 8192 else c (initcps ax))))
   \<and> (gendyx_process_arate R cs c ax p = Inr (c3, p3, zs) \<longrightarrow>
      c3 = (if ksmps cs = 0 then c
            else c(kcurveup ax := max 0 (c (kcurveup ax)),
                   kcurvedown ax := max 0 (c (kcurvedown ax)))))"
proof (intro conjI impI)
  assume "gendy_init R cs c a p = (cs1, c1, p1)"
  then show "c1 = c(initcps a := (if c (initcps a) < 1 then 12
                           else if c (initcps a) > 8192 then 8192 else c (initcps a)))"
    using gendy_init_cells(1) by fastforce
next
  assume "gendyx_init R cs c ax p = (cs2, c2, p2)"
  then have "gendy_init R cs c ax p = (cs2, c2, p2)" by (simp add: gendyx_init_def)
  then show "c2 = c(initcps ax := (if c (initcps ax) < 1 then 12
                           else if c (initcps ax) > 8192 then 8192 else c (initcps ax)))"
    using gendy_init_cells(1) by fastforce
next
  assume "gendyx_process_arate R cs c ax p = Inr (c3, p3, zs)"
  then show "c3 = (if ksmps cs = 0 then c
            else c(kcurveup ax := max 0 (c (kcurveup ax)),
                   kcurvedown ax := max 0 (c (kcurvedown ax))))"
    using gendyx_loop_cells by (simp add: gendyx_process_arate_def)
qed

theorem clamp_write_back_witness:
  "fst (snd (gendy_init ex_rand ex_host (ex_cells(9 := 0)) ex_args ex_fresh))
     = (ex_cells(9 := 0))(9 := 12)
   \<and> fst (snd (gendyx_init ex_rand ex_host (ex_cells(9 := 9000)) ex_xargs ex_fresh))
     = (ex_cells(9 := 9000))(9 := 8192)
   \<and> gendyx_process_arate ex_rand ex_host (ex_cells(11 := - 1)) ex_xargs ex_fresh
       = Inr (ex_cells(11 := 0),
              \<lparr>phase = 4, amp = 1 / 2, nextamp = 1, dur = 1 / 2, speed = 5 / 2,
                 index = 0, rand = 1093, memamp = [1], memdur = [1 / 2]\<rparr>,
              [Some (1 / 2), Some 1])
   \<and> ex_cells(11 := 0) = (ex_cells(11 := - 1))(11 := max 0 (- 1), 12 := max 0 1)"
proof -
  have h1: "gendy_init ex_rand ex_host (ex_cells(9 := 0)) ex_args ex_fresh
      = (fst (gendy_init ex_rand ex_host (ex_cells(9 := 0)) ex_args ex_fresh),
         fst (snd (gendy_init ex_rand ex_host (ex_cells(9 := 0)) ex_args ex_fresh)),
         snd (snd (gendy_init ex_rand ex_host (ex_cells(9 := 0)) ex_args ex_fresh)))"
    by simp
  have h2: "gendyx_init ex_rand ex_host (ex_cells(9 := 9000)) ex_xargs ex_fresh
      = (fst (gendyx_init ex_rand ex_host (ex_cells(9 := 9000)) ex_xargs ex_fresh),
         fst (snd (gendyx_init ex_rand ex_host (ex_cells(9 := 9000)) ex_xargs ex_fresh)),
         snd (snd (gendyx_init ex_rand ex_host (ex_cells(9 := 9000)) ex_xargs ex_fresh)))"
    by simp
  have h3: "gendyx_process_arate ex_rand ex_host (ex_cells(11 := - 1)) ex_xargs ex_fresh
       = Inr (ex_cells(11 := 0),
              \<lparr>phase = 4, amp = 1 / 2, nextamp = 1, dur = 1 / 2, speed = 5 / 2,
                 index = 0, rand = 1093, memamp = [1], memdur = [1 / 2]\<rparr>,
              [Some (1 / 2), Some 1])"
    by (simp add: ex_defs eval_defs gendyx_process_arate_def gendyx_sample_def
        POWER_def numeral_2_eq_2)
  have v: "initcps ex_args = 9" "initcps ex_xargs = 9" "kcurveup ex_xargs = 11"
    "kcurvedown ex_xargs = 12" "ksmps ex_host = 2" "ex_cells 12 = 1"
    by (simp_all add: ex_defs)
  note t1 = clamp_write_back [where R = ex_rand and cs = ex_host and c = "ex_cells(9 := 0)"
      and a = ex_args and p = ex_fresh, THEN conjunct1, rule_format, OF h1]
  note t2 = clamp_write_back [where R = ex_rand and cs = ex_host and c = "ex_cells(9 := 9000)"
      and ax = ex_xargs and p = ex_fresh and a = ex_args,
      THEN conjunct2, THEN conjunct1, rule_format, OF h2]
  note t3 = clamp_write_back [where R = ex_rand and cs = ex_host and c = "ex_cells(11 := - 1)"
      and ax = ex_xargs and p = ex_fresh and a = ex_args,
      THEN conjunct2, THEN conjunct2, rule_format, OF h3]
  show ?thesis using t1 t2 t3 h3 by (simp add: v)
qed

section \<open>The curved variant with both exponents 1\<close>

lemma truncate_fields:
  "kamp (GENDY_args.truncate a) = kamp a" "ampdist (GENDY_args.truncate a) = ampdist a"
  "durdist (GENDY_args.truncate a) = durdist a" "adpar (GENDY_args.truncate a) = adpar a"
  "ddpar (GENDY_args.truncate a) = ddpar a" "minfreq (GENDY_args.truncate a) = minfreq a"
  "maxfreq (GENDY_args.truncate a) = maxfreq a" "ampscl (GENDY_args.truncate a) = ampscl a"
  "durscl (GENDY_args.truncate a) = durscl a" "initcps (GENDY_args.truncate a) = initcps a"
  "knum (GENDY_args.truncate a) = knum a"
  by (simp_all add: GENDY_args.truncate_def)

lemma gendy_breakpoint_truncate:
  "gendy_breakpoint R cs c (GENDY_args.truncate a) icps minf maxf kn p
     = gendy_breakpoint R cs c a icps minf maxf kn p"
  unfolding gendy_breakpoint_def truncate_fields ..

lemma gendy_sample_truncate:
  "gendy_sample R cs c (GENDY_args.truncate a) icps minf maxf kn p
     = gendy_sample R cs c a icps minf maxf kn p"
  unfolding gendy_sample_def gendy_pending_def gendy_breakpoint_truncate truncate_fields ..

lemma gendy_loop_truncate:
  "gendy_loop R cs c (GENDY_args.truncate a) icps minf maxf n kn p
     = gendy_loop R cs c a icps minf maxf n kn p"
  by (induction n arbitrary: kn p) (simp_all add: gendy_sample_truncate split: sum.splits)

lemma gendy_process_arate_truncate:
  "gendy_process_arate R cs c (GENDY_args.truncate a) p = gendy_process_arate R cs c a p"
  by (simp add: gendy_process_arate_def gendy_loop_truncate truncate_fields)

lemma gendyx_sample_curve_one:
  assumes "c (kcurveup a) = 1" "c (kcurvedown a) = 1"
  shows "gendyx_sample R cs c a icps minf maxf kn p
     = map_sum id (\<lambda>(kn', p', y). (kn', c, p', Some y))
         (gendy_sample R cs c a icps minf maxf kn p)"
  using assms
  by (simp add: gendyx_sample_def gendy_sample_def POWER_one algebra_simps
      split: sum.splits)

lemma gendyx_loop_curve_one:
  assumes "c (kcurveup a) = 1" "c (kcurvedown a) = 1"
  shows "gendyx_loop R cs a icps minf maxf n kn c p
     = map_sum id (\<lambda>(p', ys). (c, p', map Some ys))
         (gendy_loop R cs c a icps minf maxf n kn p)"
proof (induction n arbitrary: kn p)
  case 0
  show ?case by simp
next
  case (Suc n)
  show ?case
    by (simp add: gendyx_sample_curve_one [OF assms] Suc split: sum.splits)
qed

lemma gendyx_process_curve_one:
  assumes "c (kcurveup a) = 1" "c (kcurvedown a) = 1"
  shows "gendyx_process_arate R cs c a p
     = map_sum id (\<lambda>(p', ys). (c, p', map Some ys))
         (gendy_process_arate R cs c (GENDY_args.truncate a) p)"
  by (simp add: gendy_process_arate_truncate)
     (simp add: gendyx_process_arate_def gendy_process_arate_def
       gendyx_loop_curve_one [OF assms])

subsection \<open>The two output statements under rounding\<close>

lemma find_exp_eq:
  "emin \<le> e \<Longrightarrow> e < emin + int n \<Longrightarrow> 2 powi e \<le> x \<Longrightarrow> x < 2 powi (e + 1)
     \<Longrightarrow> find_exp emin n x = e"
proof (induction n)
  case 0
  then show ?case by simp
next
  case (Suc n)
  show ?case
  proof (cases "2 powi (emin + int n) \<le> x")
    case True
    have "emin + int n < e + 1"
    proof (rule ccontr)
      assume "\<not> emin + int n < e + 1"
      then have "e + 1 \<le> emin + int n" by simp
      then have "(2::real) powi (e + 1) \<le> 2 powi (emin + int n)"
        by (intro power_int_increasing) simp_all
      then show False using True Suc.prems(4) by linarith
    qed
    then have "emin + int n = e" using Suc.prems(2) by simp
    then show ?thesis using True by simp
  next
    case False
    then have "e \<noteq> emin + int n" using Suc.prems(3) by auto
    then have "e < emin + int n" using Suc.prems(2) by simp
    then show ?thesis using False Suc by simp
  qed
qed

lemma fl_round_eval:
  assumes "emin \<le> e" "e < emin + int n" "2 powi e \<le> \<bar>x\<bar>" "\<bar>x\<bar> < 2 powi (e + 1)"
  shows "fl_round p emin n x
           = real_of_int (round_even (x / 2 powi (e - int p + 1))) * 2 powi (e - int p + 1)"
  using find_exp_eq [OF assms] by (simp add: fl_round_def Let_def)

lemma fl64_eval:
  assumes "- 1022 \<le> e" "e \<le> 1023" "2 powi e \<le> \<bar>x\<bar>" "\<bar>x\<bar> < 2 powi (e + 1)"
  shows "fl64 x = real_of_int (round_even (x / 2 powi (e - 52))) * 2 powi (e - 52)"
  using fl_round_eval [of "- 1022" e 2046 x 53] assms by (simp add: fl64_def)

lemma fl32_eval:
  assumes "- 126 \<le> e" "e \<le> 127" "2 powi e \<le> \<bar>x\<bar>" "\<bar>x\<bar> < 2 powi (e + 1)"
  shows "fl32 x = real_of_int (round_even (x / 2 powi (e - 23))) * 2 powi (e - 23)"
  using fl_round_eval [of "- 126" e 254 x 24] assms by (simp add: fl32_def)

lemma out171_exact: "out171 (\<lambda>x. x) k ph a n = k * ((1 - ph) * a + ph * n)"
  by (simp add: out171_def)

lemma gendy_sample_output:
  assumes "gendy_sample R cs c a icps minf maxf kn p = Inr (kn', p', y)"
  shows "\<exists>q. gendy_pending R cs c a icps minf maxf kn p = Inr (kn', q)
           \<and> y = out171 (\<lambda>x. x) (c (kamp a)) (phase q) (amp q) (nextamp q)"
  using assms by (auto simp: gendy_sample_def out171_def split: sum.splits)

lemma gendyx_sample_output:
  assumes "gendyx_sample R cs c a icps minf maxf kn p = Inr (kn', c', p', z)"
  shows "\<exists>q. gendy_pending R cs c a icps minf maxf kn p = Inr (kn', q)
           \<and> z = out253 (\<lambda>x. x) (c' (kamp a)) (phase q) (amp q) (nextamp q)
                 (if nextamp q - amp q > 0 then c' (kcurveup a) else c' (kcurvedown a))"
  using assms by (auto simp: gendyx_sample_def out253_def Let_def split: sum.splits)

lemma fl64_steps:
  "fl64 (1 - 1 / 2) = 1 / 2"
  "fl64 (1 / 2 * 1) = 1 / 2"
  "fl64 (1 / 2 * - (1 / 2 ^ 53)) = - (1 / 2 ^ 54)"
  "fl64 (1 / 2 + - (1 / 2 ^ 54)) = 1 / 2 - 1 / 2 ^ 54"
  "fl64 (1 * (1 / 2 - 1 / 2 ^ 54)) = 1 / 2 - 1 / 2 ^ 54"
  "fl64 (1 / 2) = 1 / 2"
  "fl64 (- (1 / 2 ^ 53) - 1) = - 1"
  "fl64 (1 / 2 * - 1) = - (1 / 2)"
  "fl64 (1 + - (1 / 2)) = 1 / 2"
  "fl64 (1 * (1 / 2)) = 1 / 2"
  "fl64 1 = 1"
  "fl64 (- (1 / 2 ^ 53)) = - (1 / 2 ^ 53)"
proof -
  show "fl64 (1 - 1 / 2) = 1 / 2"
    by (subst fl64_eval [of "- 1"]) (simp_all add: round_even_def)
  show "fl64 (1 / 2 * 1) = 1 / 2"
    by (subst fl64_eval [of "- 1"]) (simp_all add: round_even_def)
  show "fl64 (1 / 2 * - (1 / 2 ^ 53)) = - (1 / 2 ^ 54)"
    by (subst fl64_eval [of "- 54"]) (simp_all add: round_even_def)
  show "fl64 (1 / 2 + - (1 / 2 ^ 54)) = 1 / 2 - 1 / 2 ^ 54"
    by (subst fl64_eval [of "- 2"]) (simp_all add: round_even_def)
  show "fl64 (1 * (1 / 2 - 1 / 2 ^ 54)) = 1 / 2 - 1 / 2 ^ 54"
    by (subst fl64_eval [of "- 2"]) (simp_all add: round_even_def)
  show "fl64 (1 / 2) = 1 / 2"
    by (subst fl64_eval [of "- 1"]) (simp_all add: round_even_def)
  show "fl64 (- (1 / 2 ^ 53) - 1) = - 1"
    by (subst fl64_eval [of "0"]) (simp_all add: round_even_def)
  show "fl64 (1 / 2 * - 1) = - (1 / 2)"
    by (subst fl64_eval [of "- 1"]) (simp_all add: round_even_def)
  show "fl64 (1 + - (1 / 2)) = 1 / 2"
    by (subst fl64_eval [of "- 1"]) (simp_all add: round_even_def)
  show "fl64 (1 * (1 / 2)) = 1 / 2"
    by (subst fl64_eval [of "- 1"]) (simp_all add: round_even_def)
  show "fl64 1 = 1"
    by (subst fl64_eval [of "0"]) (simp_all add: round_even_def)
  show "fl64 (- (1 / 2 ^ 53)) = - (1 / 2 ^ 53)"
    by (subst fl64_eval [of "- 53"]) (simp_all add: round_even_def)
qed

lemma fl32_steps:
  "fl32 (1 - 1 / 2) = 1 / 2"
  "fl32 (1 / 2 * 1) = 1 / 2"
  "fl32 (1 / 2 * - (1 / 2 ^ 24)) = - (1 / 2 ^ 25)"
  "fl32 (1 / 2 + - (1 / 2 ^ 25)) = 1 / 2 - 1 / 2 ^ 25"
  "fl32 (1 * (1 / 2 - 1 / 2 ^ 25)) = 1 / 2 - 1 / 2 ^ 25"
  "fl32 (1 / 2) = 1 / 2"
  "fl32 (- (1 / 2 ^ 24) - 1) = - 1"
  "fl32 (1 / 2 * - 1) = - (1 / 2)"
  "fl32 (1 + - (1 / 2)) = 1 / 2"
  "fl32 (1 * (1 / 2)) = 1 / 2"
  "fl32 1 = 1"
  "fl32 (- (1 / 2 ^ 24)) = - (1 / 2 ^ 24)"
proof -
  show "fl32 (1 - 1 / 2) = 1 / 2"
    by (subst fl32_eval [of "- 1"]) (simp_all add: round_even_def)
  show "fl32 (1 / 2 * 1) = 1 / 2"
    by (subst fl32_eval [of "- 1"]) (simp_all add: round_even_def)
  show "fl32 (1 / 2 * - (1 / 2 ^ 24)) = - (1 / 2 ^ 25)"
    by (subst fl32_eval [of "- 25"]) (simp_all add: round_even_def)
  show "fl32 (1 / 2 + - (1 / 2 ^ 25)) = 1 / 2 - 1 / 2 ^ 25"
    by (subst fl32_eval [of "- 2"]) (simp_all add: round_even_def)
  show "fl32 (1 * (1 / 2 - 1 / 2 ^ 25)) = 1 / 2 - 1 / 2 ^ 25"
    by (subst fl32_eval [of "- 2"]) (simp_all add: round_even_def)
  show "fl32 (1 / 2) = 1 / 2"
    by (subst fl32_eval [of "- 1"]) (simp_all add: round_even_def)
  show "fl32 (- (1 / 2 ^ 24) - 1) = - 1"
    by (subst fl32_eval [of "0"]) (simp_all add: round_even_def)
  show "fl32 (1 / 2 * - 1) = - (1 / 2)"
    by (subst fl32_eval [of "- 1"]) (simp_all add: round_even_def)
  show "fl32 (1 + - (1 / 2)) = 1 / 2"
    by (subst fl32_eval [of "- 1"]) (simp_all add: round_even_def)
  show "fl32 (1 * (1 / 2)) = 1 / 2"
    by (subst fl32_eval [of "- 1"]) (simp_all add: round_even_def)
  show "fl32 1 = 1"
    by (subst fl32_eval [of "0"]) (simp_all add: round_even_def)
  show "fl32 (- (1 / 2 ^ 24)) = - (1 / 2 ^ 24)"
    by (subst fl32_eval [of "- 24"]) (simp_all add: round_even_def)
qed

text \<open>
  C7, as stated, fails of the program: at a state with phase 1/2 (no advance), \<open>amp = 1\<close>
  and \<open>nextamp = -2^-53\<close>, with \<open>kamp = 1\<close> and both exponents 1, line 171 gives
  \<open>1/2 - 2^-54\<close> and line 253 gives \<open>1/2\<close> in binary64 (the difference
  \<open>nextamp - amp\<close> rounds to -1); in binary32 the same happens with \<open>nextamp = -2^-24\<close>.
\<close>

theorem curve_one_rounding_counterexample:
  "fl64 (1 / 2) = 1 / 2 \<and> fl64 1 = 1 \<and> fl64 (- (1 / 2 ^ 53)) = - (1 / 2 ^ 53)
   \<and> out171 fl64 1 (1 / 2) 1 (- (1 / 2 ^ 53)) = 1 / 2 - 1 / 2 ^ 54
   \<and> out253 fl64 1 (1 / 2) 1 (- (1 / 2 ^ 53)) 1 = Some (1 / 2)
   \<and> (1 / 2 - 1 / 2 ^ 54 :: real) \<noteq> 1 / 2
   \<and> fl32 (1 / 2) = 1 / 2 \<and> fl32 1 = 1 \<and> fl32 (- (1 / 2 ^ 24)) = - (1 / 2 ^ 24)
   \<and> out171 fl32 1 (1 / 2) 1 (- (1 / 2 ^ 24)) = 1 / 2 - 1 / 2 ^ 25
   \<and> out253 fl32 1 (1 / 2) 1 (- (1 / 2 ^ 24)) 1 = Some (1 / 2)
   \<and> (1 / 2 - 1 / 2 ^ 25 :: real) \<noteq> 1 / 2"
proof -
  have d: "(1 / 2 - 1 / 2 ^ 54 :: real) \<noteq> 1 / 2" "(1 / 2 - 1 / 2 ^ 25 :: real) \<noteq> 1 / 2"
    by simp_all
  show ?thesis
    by (simp only: out171_def out253_def POWER_one option.map fl64_steps fl32_steps
        d simp_thms)
qed

text \<open>
  C7, amended. In exact real arithmetic, from every generator state and for every
  sequence of per-block inputs in which \<open>kcurveup\<close> and \<open>kcurvedown\<close> are 1, the curved
  variant and the linear variant, given the same argument cells, write the same samples
  block for block and pass through the same generator states. As the program computes
  them, the two outputs are two differently rounded expressions of that common value.
\<close>

theorem curve_one_is_linear:
  "\<forall>c \<in> set blocks. c (kcurveup a) = 1 \<and> c (kcurvedown a) = 1 \<Longrightarrow>
   gendyx_run R cs a blocks p
     = map_sum id (\<lambda>(p', yss). (p', map (map Some) yss))
         (gendy_run R cs (GENDY_args.truncate a) blocks p)"
proof (induction blocks arbitrary: p)
  case Nil
  show ?case by simp
next
  case (Cons c bs)
  have c: "c (kcurveup a) = 1" "c (kcurvedown a) = 1" using Cons.prems by simp_all
  have r: "\<And>q. gendyx_run R cs a bs q
     = map_sum id (\<lambda>(p', yss). (p', map (map Some) yss))
         (gendy_run R cs (GENDY_args.truncate a) bs q)"
    by (rule Cons.IH) (use Cons.prems in simp)
  show ?case
    by (simp add: gendyx_process_curve_one [OF c] r split: sum.splits)
qed

theorem curve_one_is_linear_witness:
  "ex_cells (kcurveup ex_xargs) = 1 \<and> ex_cells (kcurvedown ex_xargs) = 1
   \<and> (ex_cells(7 := 1)) (kcurveup ex_xargs) = 1
   \<and> (ex_cells(7 := 1)) (kcurvedown ex_xargs) = 1
   \<and> gendyx_run ex_rand ex_host ex_xargs [ex_cells, ex_cells(7 := 1)] ex_fresh
     = map_sum id (\<lambda>(p', yss). (p', map (map Some) yss))
         (gendy_run ex_rand ex_host (GENDY_args.truncate ex_xargs)
            [ex_cells, ex_cells(7 := 1)] ex_fresh)
   \<and> GENDY_args.truncate ex_xargs = ex_args
   \<and> gendy_run ex_rand ex_host ex_args [ex_cells] ex_fresh
     = Inr (\<lparr>phase = 4, amp = 1 / 2, nextamp = 1, dur = 1 / 2, speed = 5 / 2,
                 index = 0, rand = 1093, memamp = [1], memdur = [1 / 2]\<rparr>, [[0, 5 / 4]])"
proof -
  have h: "\<forall>c \<in> set [ex_cells, ex_cells(7 := 1)].
      c (kcurveup ex_xargs) = 1 \<and> c (kcurvedown ex_xargs) = 1"
    by (simp add: ex_defs)
  have t: "GENDY_args.truncate ex_xargs = ex_args"
    by (simp add: ex_defs GENDY_args.truncate_def)
  have g: "gendy_run ex_rand ex_host ex_args [ex_cells] ex_fresh
     = Inr (\<lparr>phase = 4, amp = 1 / 2, nextamp = 1, dur = 1 / 2, speed = 5 / 2,
                 index = 0, rand = 1093, memamp = [1], memdur = [1 / 2]\<rparr>, [[0, 5 / 4]])"
    by (simp add: ex_defs eval_defs gendy_process_arate_def numeral_2_eq_2)
  show ?thesis using curve_one_is_linear [OF h] h t g by simp
qed

end
